theory Spec2Isabelle
  imports Main "HOL-Library.List_Lexorder" "HOL-Library.Char_ord" "HOL-Library.Multiset"
begin

section \<open>Data model of \<^verbatim>\<open>src/useShortcuts.ts\<close>\<close>

text \<open>
  \<^verbatim>\<open>type ModifierKey = 'ctrlKey' | 'shiftKey' | 'metaKey' | 'altKey'\<close>: a closed union of
  four string literals. The constructors are capitalised because the lower-case names are
  the boolean fields of the keyboard event; \<open>keyName\<close> gives the string literal itself,
  which is what \<^verbatim>\<open>sort\<close>, \<^verbatim>\<open>join\<close> and the template literals see.
\<close>

datatype ModifierKey = CtrlKey | ShiftKey | MetaKey | AltKey

fun keyName :: "ModifierKey \<Rightarrow> string" where
  "keyName CtrlKey = ''ctrlKey''"
| "keyName ShiftKey = ''shiftKey''"
| "keyName MetaKey = ''metaKey''"
| "keyName AltKey = ''altKey''"

definition LOG_TAG :: string where
  "LOG_TAG = ''#hooks #useShortcuts''"

definition MODIFIERS_KEYS :: "ModifierKey list" where
  "MODIFIERS_KEYS = [CtrlKey, ShiftKey, MetaKey, AltKey]"

text \<open>
  The part of a DOM \<^verbatim>\<open>KeyboardEvent\<close> that the code reads: the four modifier flags and
  \<^verbatim>\<open>key\<close>. Strings are sequences of ASCII characters.
\<close>

record KeyboardEvent =
  ctrlKey :: bool
  shiftKey :: bool
  metaKey :: bool
  altKey :: bool
  key :: string

text \<open>
  Objects live in a store, because \<^verbatim>\<open>generateShorcutMap\<close> sorts the caller's
  \<^verbatim>\<open>modifiers\<close> arrays in place and the table holds the caller's definition objects
  themselves. An \<open>aref\<close> is the address of a modifiers array, an \<open>oref\<close> the address of
  a \<^verbatim>\<open>Shortcut\<close> object. A \<^verbatim>\<open>Shortcut\<close> holds the address of its array, so that two
  definitions may share one array. The action is an opaque value of type \<open>'a\<close>; what
  calling it does is given by the environment of the handler below.
\<close>

type_synonym aref = nat
type_synonym oref = nat

record 'a Shortcut =
  action :: 'a
  modifiers :: aref
  key :: string
  description :: string

record 'a heap =
  arrays :: "aref \<Rightarrow> ModifierKey list"
  objects :: "oref \<Rightarrow> 'a Shortcut"

text \<open>
  \<^verbatim>\<open>type ShortcutMap = Record<string, Shortcut>\<close>: own properties of a plain object, from
  property name to the definition object stored there. Every name the code reads or writes
  contains the character \<^verbatim>\<open>-\<close>, so no lookup reaches a property inherited from
  \<^verbatim>\<open>Object.prototype\<close>.
\<close>

type_synonym ShortcutMap = "string \<rightharpoonup> oref"

section \<open>Library functions of the language\<close>

text \<open>\<^verbatim>\<open>Array.prototype.join\<close> on an array of strings.\<close>

fun join :: "string \<Rightarrow> string list \<Rightarrow> string" where
  "join sep [] = []"
| "join sep [x] = x"
| "join sep (x # y # ys) = x @ sep @ join sep (y # ys)"

text \<open>
  \<^verbatim>\<open>String.prototype.toLowerCase\<close> on ASCII: the letters \<^verbatim>\<open>A\<close> to \<^verbatim>\<open>Z\<close> go to \<^verbatim>\<open>a\<close> to
  \<^verbatim>\<open>z\<close>, every other character stays.
\<close>

definition toLowerCase_char :: "char \<Rightarrow> char" where
  "toLowerCase_char c =
     (case map_of (zip ''ABCDEFGHIJKLMNOPQRSTUVWXYZ'' ''abcdefghijklmnopqrstuvwxyz'') c of
        Some l \<Rightarrow> l
      | None \<Rightarrow> c)"

definition toLowerCase :: "string \<Rightarrow> string" where
  "toLowerCase s = map toLowerCase_char s"

text \<open>
  \<^verbatim>\<open>Array.prototype.sort()\<close> without a comparator orders the elements as strings, by code
  unit; on ASCII that is the lexicographic order of \<open>string\<close>. It is stable, as
  \<open>sort_key\<close> is. On an array in the store it sorts in place and returns the same array.
\<close>

definition sort_in_place :: "aref \<Rightarrow> 'a heap \<Rightarrow> 'a heap" where
  "sort_in_place a h = h\<lparr>arrays := (arrays h)(a := sort_key keyName (arrays h a))\<rparr>"

text \<open>\<^verbatim>\<open>Array.prototype.reduceRight\<close>: the callback sees the elements from last to first.\<close>

definition reduceRight :: "('b \<Rightarrow> 'c \<Rightarrow> 'b) \<Rightarrow> 'b \<Rightarrow> 'c list \<Rightarrow> 'b" where
  "reduceRight f init xs = foldr (\<lambda>x acc. f acc x) xs init"

section \<open>The functions of the module\<close>

text \<open>\<^verbatim>\<open>event[m]\<close> for a modifier name \<open>m\<close>.\<close>

fun eventFlag :: "KeyboardEvent \<Rightarrow> ModifierKey \<Rightarrow> bool" where
  "eventFlag event CtrlKey = ctrlKey event"
| "eventFlag event ShiftKey = shiftKey event"
| "eventFlag event MetaKey = metaKey event"
| "eventFlag event AltKey = altKey event"

definition getEventMapKey :: "KeyboardEvent \<Rightarrow> string" where
  "getEventMapKey event =
     (let modifiersPressed = sort_key keyName (filter (eventFlag event) MODIFIERS_KEYS)
      in join ''-'' (map keyName modifiersPressed) @ ''-'' @ toLowerCase (KeyboardEvent.key event))"

text \<open>
  \<^verbatim>\<open>getShortcut\<close>: the parameter \<^verbatim>\<open>shortcutMap\<close> defaults to the empty object when it is
  undefined (\<open>None\<close>); a name that is not in the table gives undefined (\<open>None\<close>).
\<close>

definition getShortcut :: "ShortcutMap option \<Rightarrow> KeyboardEvent \<Rightarrow> oref option" where
  "getShortcut shortcutMap event =
     (let table = (case shortcutMap of None \<Rightarrow> Map.empty | Some m \<Rightarrow> m);
          indexMapKey = getEventMapKey event
      in table indexMapKey)"

text \<open>
  The callback of \<^verbatim>\<open>reduceRight\<close> in \<^verbatim>\<open>generateShorcutMap\<close>. It sorts the definition's array
  in place, builds the property name from the sorted array and the definition's key as it
  is written, and returns a copy of the accumulator with that property set to the
  definition object.
\<close>

definition reducer :: "ShortcutMap \<times> 'a heap \<Rightarrow> oref \<Rightarrow> ShortcutMap \<times> 'a heap" where
  "reducer s config =
     (case s of (acc, h) \<Rightarrow>
        let arr = modifiers (objects h config);
            k = Shortcut.key (objects h config);
            h' = sort_in_place arr h;
            indexKey = join ''-'' (map keyName (arrays h' arr)) @ ''-'' @ k
        in (acc(indexKey \<mapsto> config), h'))"

definition generateShorcutMap :: "'a heap \<Rightarrow> oref list \<Rightarrow> ShortcutMap \<times> 'a heap" where
  "generateShorcutMap h defs = reduceRight reducer (Map.empty, h) defs"

text \<open>
  What a run of the handler does, in order: calls of actions and lines written with
  \<^verbatim>\<open>console.info\<close>.
\<close>

datatype 'a effect = Invoke 'a | Info string

text \<open>
  \<^verbatim>\<open>handleKeyPress\<close>, the asynchronous handler, for the table and the \<^verbatim>\<open>silent\<close> option it
  closes over. \<open>run a\<close> is what \<^verbatim>\<open>await action()\<close> does for the action \<open>a\<close>: \<open>None\<close>
  when the call completes, \<open>Some e\<close> when it throws or its promise rejects with \<open>e\<close>. The
  result is the list of effects and how the handler's promise settles: \<open>Inr ()\<close>
  fulfilled, \<open>Inl e\<close> rejected with \<open>e\<close>. \<^verbatim>\<open>silent\<close> is optional: \<open>None\<close> is an omitted
  option. \<^verbatim>\<open>${modifiers}\<close> renders the array with \<^verbatim>\<open>join(',')\<close>.
\<close>

definition handleKeyPress ::
  "('a \<Rightarrow> 'e option) \<Rightarrow> 'a heap \<Rightarrow> ShortcutMap \<Rightarrow> bool option \<Rightarrow> KeyboardEvent
     \<Rightarrow> 'a effect list \<times> ('e + unit)" where
  "handleKeyPress run h shortcutMap silent event =
     (case getShortcut (Some shortcutMap) event of
        None \<Rightarrow> ([], Inr ())
      | Some shortcut \<Rightarrow>
          let k = Shortcut.key (objects h shortcut);
              d = description (objects h shortcut);
              arr = modifiers (objects h shortcut);
              a = action (objects h shortcut)
          in (case run a of
                Some e \<Rightarrow> ([Invoke a], Inl e)
              | None \<Rightarrow>
                  if silent = Some True then ([Invoke a], Inr ())
                  else ([Invoke a,
                         Info (LOG_TAG @ '' with '' @ join '','' (map keyName (arrays h arr))
                               @ '' executed for key '' @ [CHR 0x22] @ k @ [CHR 0x22]
                               @ '': '' @ d)],
                        Inr ())))"

text \<open>
  The \<^verbatim>\<open>keydown\<close> listeners of \<^verbatim>\<open>document\<close>, in the order of registration. A listener is
  the function object made by \<^verbatim>\<open>useCallback\<close>: its identity and what it closes over.
  \<^verbatim>\<open>addEventListener\<close> does nothing when the same function is registered already,
  \<^verbatim>\<open>removeEventListener\<close> removes the function with that identity, and a \<^verbatim>\<open>keydown\<close> event
  runs every registered listener.
\<close>

record listener =
  fid :: nat
  closure_shortcutMap :: ShortcutMap
  closure_silent :: "bool option"

type_synonym document = "listener list"

definition addEventListener :: "document \<Rightarrow> listener \<Rightarrow> document" where
  "addEventListener doc l = (if fid l \<in> fid ` set doc then doc else doc @ [l])"

definition removeEventListener :: "document \<Rightarrow> listener \<Rightarrow> document" where
  "removeEventListener doc l = filter (\<lambda>x. fid x \<noteq> fid l) doc"

definition keydown ::
  "('a \<Rightarrow> 'e option) \<Rightarrow> 'a heap \<Rightarrow> document \<Rightarrow> KeyboardEvent
     \<Rightarrow> ('a effect list \<times> ('e + unit)) list" where
  "keydown run h doc event =
     map (\<lambda>l. handleKeyPress run h (closure_shortcutMap l) (closure_silent l) event) doc"

text \<open>
  \<^verbatim>\<open>useShortcuts\<close> at the first render of the component: the table is built from \<^verbatim>\<open>map\<close>
  (here \<open>defs\<close>), the handler \<open>f\<close> is created over it and \<^verbatim>\<open>silent\<close>, and the effect
  registers it. The result is the handler, the store and the document. \<open>cleanup\<close> is the
  function the effect returns.
\<close>

definition useShortcuts ::
  "nat \<Rightarrow> oref list \<Rightarrow> bool option \<Rightarrow> 'a heap \<Rightarrow> document \<Rightarrow> listener \<times> 'a heap \<times> document" where
  "useShortcuts f defs silent h doc =
     (case generateShorcutMap h defs of (shortcutMap, h') \<Rightarrow>
        let handleKeyPress_f =
              \<lparr>fid = f, closure_shortcutMap = shortcutMap, closure_silent = silent\<rparr>
        in (handleKeyPress_f, h', addEventListener doc handleKeyPress_f))"

definition cleanup :: "listener \<Rightarrow> document \<Rightarrow> document" where
  "cleanup handleKeyPress_f doc = removeEventListener doc handleKeyPress_f"

section \<open>What the table builder computes\<close>

text \<open>
  The property name \<^verbatim>\<open>generateShorcutMap\<close> gives the definition at \<open>r\<close>, and the store it
  leaves: the array of every listed definition sorted, everything else as it was.
\<close>

definition tableKey :: "'a heap \<Rightarrow> oref \<Rightarrow> string" where
  "tableKey h r =
     join ''-'' (map keyName (sort_key keyName (arrays h (modifiers (objects h r)))))
       @ ''-'' @ Shortcut.key (objects h r)"

definition sortedStore :: "'a heap \<Rightarrow> oref list \<Rightarrow> 'a heap" where
  "sortedStore h defs =
     h\<lparr>arrays := (\<lambda>a. if a \<in> (\<lambda>r. modifiers (objects h r)) ` set defs
                       then sort_key keyName (arrays h a) else arrays h a)\<rparr>"

text \<open>
  A keyboard event given by the list of the modifiers held down and the key, as the object
  literals of the test suite give it: a flag is set when its name is listed.
\<close>

definition eventOf :: "ModifierKey list \<Rightarrow> string \<Rightarrow> KeyboardEvent" where
  "eventOf ms k =
     \<lparr>ctrlKey = CtrlKey \<in> set ms, shiftKey = ShiftKey \<in> set ms, metaKey = MetaKey \<in> set ms,
      altKey = AltKey \<in> set ms, KeyboardEvent.key = k\<rparr>"

section \<open>The canonical key of the specification\<close>

text \<open>
  The canonical key in the words of the specification (section 4.1), to compare the code
  with: the active modifiers are a set, they are put in a fixed order and joined by a fixed
  separator, and the same separator and the lower-cased base key follow. Order and
  separator are the ones of the code. \<open>definitionCanonicalKey\<close> is the canonical key of a
  definition in the store: that of its modifiers and its key.
\<close>

definition canonicalKey :: "ModifierKey set \<Rightarrow> string \<Rightarrow> string" where
  "canonicalKey activeModifiers baseKey =
     join ''-'' (map keyName
        (sort_key keyName (filter (\<lambda>m. m \<in> activeModifiers) MODIFIERS_KEYS)))
       @ ''-'' @ toLowerCase baseKey"

definition definitionCanonicalKey :: "'a heap \<Rightarrow> oref \<Rightarrow> string" where
  "definitionCanonicalKey h r =
     canonicalKey (set (arrays h (modifiers (objects h r)))) (Shortcut.key (objects h r))"

section \<open>The data of the test suite\<close>

text \<open>
  \<^verbatim>\<open>SHORTCUT_CONFIG.map\<close> of \<^verbatim>\<open>test/useShortcut.test.tsx\<close>: the definitions at the addresses
  0, 1 and 2, each with an array of its own, and the actions 1, 2 and 3. More
  definitions are in the store for the cases the suite does not cover: at 3 a definition
  that lists \<^verbatim>\<open>ctrlKey\<close> twice, at 4 Shift with the upper-case key \<^verbatim>\<open>O\<close>, at 5 the first
  definition of the suite with its modifiers in the other order, at 6 Shift with the
  lower-case key \<^verbatim>\<open>o\<close>.
\<close>

definition test_arrays :: "aref \<Rightarrow> ModifierKey list" where
  "test_arrays a =
     (if a = 1 then [AltKey, CtrlKey]
      else if a = 3 then [CtrlKey, CtrlKey]
      else if a = 4 then [ShiftKey]
      else if a = 5 then [CtrlKey, ShiftKey]
      else if a = 6 then [ShiftKey]
      else [ShiftKey, CtrlKey])"

definition test_objects :: "oref \<Rightarrow> nat Shortcut" where
  "test_objects r =
     (if r = 0 then
        \<lparr>action = 1, modifiers = 0, key = ''o'', description = ''Sample action 1''\<rparr>
      else if r = 1 then
        \<lparr>action = 2, modifiers = 1, key = ''i'', description = ''Sample action 2''\<rparr>
      else if r = 2 then
        \<lparr>action = 3, modifiers = 2, key = ''o'', description = ''Sample action 3''\<rparr>
      else if r = 3 then
        \<lparr>action = 4, modifiers = 3, key = ''o'', description = ''Twice ctrlKey''\<rparr>
      else if r = 5 then
        \<lparr>action = 6, modifiers = 5, key = ''o'', description = ''Other order''\<rparr>
      else if r = 6 then
        \<lparr>action = 7, modifiers = 6, key = ''o'', description = ''Lower case''\<rparr>
      else
        \<lparr>action = 5, modifiers = 4, key = ''O'', description = ''Upper case''\<rparr>)"

definition test_store :: "nat heap" where
  "test_store = \<lparr>arrays = test_arrays, objects = test_objects\<rparr>"

definition SHORTCUT_CONFIG_map :: "oref list" where
  "SHORTCUT_CONFIG_map = [0, 1, 2]"

text \<open>
  Two environments for the actions: in \<open>completes\<close> every action returns, in \<open>rejects\<close>
  every action fails with the same error. And four events: Ctrl+Shift+\<^verbatim>\<open>o\<close> and
  Ctrl+Alt+\<^verbatim>\<open>p\<close>, as the suite fires them, Ctrl+\<^verbatim>\<open>o\<close>, and Shift+\<^verbatim>\<open>O\<close>, the event of
  the letter typed with Shift held.
\<close>

definition completes :: "nat \<Rightarrow> string option" where
  "completes a = None"

definition rejects :: "nat \<Rightarrow> string option" where
  "rejects a = Some ''action failed''"

definition ctrl_shift_o :: KeyboardEvent where
  "ctrl_shift_o = \<lparr>ctrlKey = True, shiftKey = True, metaKey = False, altKey = False,
     KeyboardEvent.key = ''o''\<rparr>"

definition ctrl_alt_p :: KeyboardEvent where
  "ctrl_alt_p = \<lparr>ctrlKey = True, shiftKey = False, metaKey = False, altKey = True,
     KeyboardEvent.key = ''p''\<rparr>"

definition ctrl_o :: KeyboardEvent where
  "ctrl_o = \<lparr>ctrlKey = True, shiftKey = False, metaKey = False, altKey = False,
     KeyboardEvent.key = ''o''\<rparr>"

definition shift_O :: KeyboardEvent where
  "shift_O = \<lparr>ctrlKey = False, shiftKey = True, metaKey = False, altKey = False,
     KeyboardEvent.key = ''O''\<rparr>"

section \<open>The table builder as a first-match lookup\<close>

lemma sort_key_idem: "sort_key f (sort_key f xs) = sort_key f xs"
  by (simp add: sort_key_id_if_sorted)

lemma reducer_sortedStore:
  "reducer (t, sortedStore h defs) r = (t(tableKey h r \<mapsto> r), sortedStore h (r # defs))"
  by (auto simp: reducer_def sortedStore_def sort_in_place_def tableKey_def Let_def
      sort_key_idem fun_eq_iff)

lemma sortedStore_Nil: "sortedStore h [] = h"
  by (simp add: sortedStore_def)

lemma generateShorcutMap_eq:
  "generateShorcutMap h defs = (map_of (map (\<lambda>r. (tableKey h r, r)) defs), sortedStore h defs)"
proof (induction defs)
  case Nil
  show ?case by (simp add: generateShorcutMap_def reduceRight_def sortedStore_Nil)
next
  case (Cons r defs)
  have "generateShorcutMap h (r # defs) = reducer (generateShorcutMap h defs) r"
    by (simp add: generateShorcutMap_def reduceRight_def)
  then show ?case by (auto simp: Cons.IH reducer_sortedStore fun_eq_iff)
qed

lemma keyName_inj: "inj keyName"
proof (rule injI)
  fix a b assume "keyName a = keyName b"
  then show "a = b" by (cases a; cases b) simp_all
qed

lemma sort_key_keyName_mset:
  assumes "mset xs = mset ys"
  shows "sort_key keyName xs = sort_key keyName ys"
proof (rule sort_key_inj_key_eq)
  show "mset xs = mset (sort_key keyName ys)" using assms by simp
  show "inj_on keyName (set xs)" using keyName_inj by (rule inj_on_subset) simp
  show "sorted (map keyName (sort_key keyName ys))" by (rule sorted_sort_key)
qed

lemma map_of_first:
  "i < length xs \<Longrightarrow> \<forall>j<i. f (xs ! j) \<noteq> f (xs ! i)
     \<Longrightarrow> map_of (map (\<lambda>r. (f r, r)) xs) (f (xs ! i)) = Some (xs ! i)"
proof (induction xs arbitrary: i)
  case Nil
  then show ?case by simp
next
  case (Cons x xs)
  show ?case
  proof (cases i)
    case 0
    then show ?thesis by simp
  next
    case (Suc n)
    from Cons.prems(2) Suc have "f x \<noteq> f (xs ! n)" by fastforce
    moreover from Cons.prems Suc have "n < length xs" "\<forall>j<n. f (xs ! j) \<noteq> f (xs ! n)"
      by auto
    ultimately show ?thesis using Suc Cons.IH by simp
  qed
qed

lemma map_of_keyed:
  "map_of (map (\<lambda>r. (f r, r)) xs) k = Some r \<Longrightarrow> r \<in> set xs \<and> f r = k"
  by (auto dest: map_of_SomeD)

lemma dom_map_of_keyed: "dom (map_of (map (\<lambda>r. (f r, r)) xs)) = f ` set xs"
proof -
  have "fst ` set (map (\<lambda>r. (f r, r)) xs) = f ` set xs" by force
  then show ?thesis by (simp only: dom_map_of_conv_image_fst)
qed

lemma test_tableKeys:
  "tableKey test_store 0 = ''ctrlKey-shiftKey-o''"
  "tableKey test_store 1 = ''altKey-ctrlKey-i''"
  "tableKey test_store (Suc 0) = ''altKey-ctrlKey-i''"
  "tableKey test_store 2 = ''ctrlKey-shiftKey-o''"
  "tableKey test_store 3 = ''ctrlKey-ctrlKey-o''"
  "tableKey test_store 4 = ''shiftKey-O''"
  "tableKey test_store 5 = ''ctrlKey-shiftKey-o''"
  "tableKey test_store 6 = ''shiftKey-o''"
  by (simp_all add: tableKey_def test_store_def test_arrays_def test_objects_def)

lemma test_canonicalKeys:
  "definitionCanonicalKey test_store 4 = ''shiftKey-o''"
  "definitionCanonicalKey test_store 6 = ''shiftKey-o''"
  by (simp_all add: definitionCanonicalKey_def canonicalKey_def MODIFIERS_KEYS_def
      toLowerCase_def toLowerCase_char_def test_store_def test_arrays_def test_objects_def)

lemma getEventMapKey_canonicalKey:
  "getEventMapKey event = canonicalKey {m. eventFlag event m} (KeyboardEvent.key event)"
  by (simp add: getEventMapKey_def canonicalKey_def)

section \<open>Collisions\<close>

text \<open>
  For one property name the first definition wins: when the definitions at the positions
  \<open>i < j\<close> of the list get the same name from the builder and \<open>i\<close> is the first position
  with that name, the table holds the definition object of position \<open>i\<close> under it, and the
  object of position \<open>j\<close>, when it is another object, is nowhere in the table.
\<close>

lemma first_written_name_wins:
  assumes "i < j" and "j < length defs"
    and "\<forall>n<i. tableKey h (defs ! n) \<noteq> tableKey h (defs ! i)"
    and "tableKey h (defs ! j) = tableKey h (defs ! i)"
  shows "fst (generateShorcutMap h defs) (tableKey h (defs ! i)) = Some (defs ! i) \<and>
         (defs ! j \<noteq> defs ! i \<longrightarrow> defs ! j \<notin> ran (fst (generateShorcutMap h defs)))"
proof (intro conjI impI)
  from assms show first: "fst (generateShorcutMap h defs) (tableKey h (defs ! i)) = Some (defs ! i)"
    by (simp add: generateShorcutMap_eq map_of_first)
  assume other: "defs ! j \<noteq> defs ! i"
  show "defs ! j \<notin> ran (fst (generateShorcutMap h defs))"
  proof
    assume "defs ! j \<in> ran (fst (generateShorcutMap h defs))"
    then obtain k where k: "fst (generateShorcutMap h defs) k = Some (defs ! j)"
      by (auto simp: ran_def)
    then have "map_of (map (\<lambda>r. (tableKey h r, r)) defs) k = Some (defs ! j)"
      by (simp add: generateShorcutMap_eq)
    then have "tableKey h (defs ! j) = k"
      by (rule map_of_keyed [THEN conjunct2])
    with assms(4) first k other show False by simp
  qed
qed

text \<open>
  C1, evaluated on the code. The definitions at 4 and 6 are Shift with \<^verbatim>\<open>O\<close> and Shift with
  \<^verbatim>\<open>o\<close>: they have the same canonical key, \<^verbatim>\<open>shiftKey-o\<close>. The builder does not lower the
  key, so from the list of the two it stores both, the first under \<^verbatim>\<open>shiftKey-O\<close> and the
  later one under \<^verbatim>\<open>shiftKey-o\<close>. The later definition is in the table, and it is the one a
  keystroke Shift+\<^verbatim>\<open>O\<close> finds and runs.
\<close>

theorem C1_later_definition_stored_across_case:
  "definitionCanonicalKey test_store 4 = ''shiftKey-o'' \<and>
   definitionCanonicalKey test_store 6 = ''shiftKey-o'' \<and>
   fst (generateShorcutMap test_store [4, 6]) ''shiftKey-O'' = Some 4 \<and>
   fst (generateShorcutMap test_store [4, 6]) ''shiftKey-o'' = Some 6 \<and>
   getShortcut (Some (fst (generateShorcutMap test_store [4, 6]))) shift_O = Some 6 \<and>
   fst (handleKeyPress completes (snd (generateShorcutMap test_store [4, 6]))
          (fst (generateShorcutMap test_store [4, 6])) (Some True) shift_O) = [Invoke 7]"
proof -
  have t: "fst (generateShorcutMap test_store [4, 6]) ''shiftKey-O'' = Some 4"
    "fst (generateShorcutMap test_store [4, 6]) ''shiftKey-o'' = Some 6"
    by (simp_all add: generateShorcutMap_eq test_tableKeys)
  have e: "getEventMapKey shift_O = ''shiftKey-o''"
    by (simp add: getEventMapKey_def shift_O_def MODIFIERS_KEYS_def toLowerCase_def
        toLowerCase_char_def)
  have g: "getShortcut (Some (fst (generateShorcutMap test_store [4, 6]))) shift_O = Some 6"
    by (simp add: getShortcut_def e t)
  have o: "action (objects (snd (generateShorcutMap test_store [4, 6])) 6) = 7"
    by (simp add: generateShorcutMap_eq sortedStore_def test_store_def test_objects_def)
  have r: "fst (handleKeyPress completes (snd (generateShorcutMap test_store [4, 6]))
          (fst (generateShorcutMap test_store [4, 6])) (Some True) shift_O) = [Invoke 7]"
    by (simp add: handleKeyPress_def g o completes_def Let_def)
  from t g r show ?thesis by (simp only: test_canonicalKeys simp_thms)
qed

section \<open>The two sides of the lookup\<close>

text \<open>
  C2, evaluated on the code. The definition at address 4 has the modifier \<^verbatim>\<open>shiftKey\<close> and
  the key \<^verbatim>\<open>O\<close>. The builder keeps the key as written and stores the definition under
  \<^verbatim>\<open>shiftKey-O\<close>; the event side lowers the key, so Shift with \<^verbatim>\<open>O\<close> and Shift with \<^verbatim>\<open>o\<close>
  both look up \<^verbatim>\<open>shiftKey-o\<close>, and the lookup in the table built from that definition finds
  nothing.
\<close>

theorem C2_upper_case_key_unreachable:
  "tableKey test_store 4 = ''shiftKey-O'' \<and>
   getEventMapKey \<lparr>ctrlKey = False, shiftKey = True, metaKey = False, altKey = False,
     KeyboardEvent.key = ''O''\<rparr> = ''shiftKey-o'' \<and>
   getEventMapKey \<lparr>ctrlKey = False, shiftKey = True, metaKey = False, altKey = False,
     KeyboardEvent.key = ''o''\<rparr> = ''shiftKey-o'' \<and>
   getShortcut (Some (fst (generateShorcutMap test_store [4])))
     \<lparr>ctrlKey = False, shiftKey = True, metaKey = False, altKey = False,
       KeyboardEvent.key = ''O''\<rparr> = None"
  by (simp add: getShortcut_def generateShorcutMap_eq test_tableKeys getEventMapKey_def
      MODIFIERS_KEYS_def toLowerCase_def toLowerCase_char_def)

lemma eventFlag_eventOf: "eventFlag (eventOf ms k) m = (m \<in> set ms)"
  by (cases m) (simp_all add: eventOf_def)

lemma pressed_sorted:
  assumes "mset ms1 = mset ms2"
  shows "sort_key keyName (filter (eventFlag (eventOf ms1 k)) MODIFIERS_KEYS)
           = sort_key keyName (remdups ms2)"
proof (rule sort_key_keyName_mset)
  have all: "m \<in> set MODIFIERS_KEYS" for m
    by (cases m) (simp_all add: MODIFIERS_KEYS_def)
  from assms have "set ms1 = set ms2" by (rule mset_eq_setD)
  with all have "set (filter (eventFlag (eventOf ms1 k)) MODIFIERS_KEYS) = set (remdups ms2)"
    by (auto simp: eventFlag_eventOf)
  moreover have "distinct (filter (eventFlag (eventOf ms1 k)) MODIFIERS_KEYS)"
    by (simp add: MODIFIERS_KEYS_def)
  moreover have "distinct (remdups ms2)" by simp
  ultimately show "mset (filter (eventFlag (eventOf ms1 k)) MODIFIERS_KEYS) = mset (remdups ms2)"
    by (simp only: set_eq_iff_mset_eq_distinct)
qed

text \<open>
  C3. The order in which modifiers are listed does not matter. On the builder's side: two
  definitions with the same key whose arrays are permutations of each other are stored
  under the same property name, each alone and, in a table built from both, the second
  colliding with the first. On the event's side: for an event whose held modifiers are
  listed as \<open>ms1\<close>, the lookup name is the join of any permutation \<open>ms2\<close> of that list,
  sorted by modifier name and without repetitions, followed by the lower-cased key; so two
  listings that are permutations of each other give the same name.
\<close>

theorem C3_order_independent:
  assumes "mset (arrays h (modifiers (objects h r1))) = mset (arrays h (modifiers (objects h r2)))"
    and "Shortcut.key (objects h r1) = Shortcut.key (objects h r2)"
    and "mset ms1 = mset ms2"
  shows "dom (fst (generateShorcutMap h [r1])) = dom (fst (generateShorcutMap h [r2])) \<and>
         tableKey h r1 = tableKey h r2 \<and>
         fst (generateShorcutMap h [r1, r2]) (tableKey h r2) = Some r1 \<and>
         getEventMapKey (eventOf ms1 k)
           = join ''-'' (map keyName (sort_key keyName (remdups ms2))) @ ''-'' @ toLowerCase k \<and>
         getEventMapKey (eventOf ms1 k) = getEventMapKey (eventOf ms2 k)"
proof (intro conjI)
  from assms(2) show same: "tableKey h r1 = tableKey h r2"
    by (simp add: tableKey_def sort_key_keyName_mset [OF assms(1)])
  then show "dom (fst (generateShorcutMap h [r1])) = dom (fst (generateShorcutMap h [r2]))"
    by (simp add: generateShorcutMap_eq)
  from same show "fst (generateShorcutMap h [r1, r2]) (tableKey h r2) = Some r1"
    by (simp add: generateShorcutMap_eq)
  have key_k: "KeyboardEvent.key (eventOf ms k) = k" for ms
    by (simp add: eventOf_def)
  show closed: "getEventMapKey (eventOf ms1 k)
      = join ''-'' (map keyName (sort_key keyName (remdups ms2))) @ ''-'' @ toLowerCase k"
    by (simp add: getEventMapKey_def Let_def pressed_sorted [OF assms(3)] key_k)
  have "getEventMapKey (eventOf ms2 k)
      = join ''-'' (map keyName (sort_key keyName (remdups ms2))) @ ''-'' @ toLowerCase k"
    by (simp add: getEventMapKey_def Let_def pressed_sorted [OF refl] key_k)
  with closed show "getEventMapKey (eventOf ms1 k) = getEventMapKey (eventOf ms2 k)"
    by simp
qed

theorem C3_order_independent_witness:
  "arrays test_store (modifiers (objects test_store 0)) = [ShiftKey, CtrlKey] \<and>
   arrays test_store (modifiers (objects test_store 5)) = [CtrlKey, ShiftKey] \<and>
   tableKey test_store 0 = tableKey test_store 5 \<and>
   fst (generateShorcutMap test_store [0, 5]) ''ctrlKey-shiftKey-o'' = Some 0 \<and>
   getEventMapKey (eventOf [CtrlKey, AltKey] ''I'') = ''altKey-ctrlKey-i'' \<and>
   getEventMapKey (eventOf [AltKey, CtrlKey] ''I'') = ''altKey-ctrlKey-i''"
proof -
  have a0: "arrays test_store (modifiers (objects test_store 0)) = [ShiftKey, CtrlKey]"
    and a5: "arrays test_store (modifiers (objects test_store 5)) = [CtrlKey, ShiftKey]"
    and k: "Shortcut.key (objects test_store 0) = Shortcut.key (objects test_store 5)"
    by (simp_all add: test_store_def test_arrays_def test_objects_def)
  have p: "mset (arrays test_store (modifiers (objects test_store 0)))
             = mset (arrays test_store (modifiers (objects test_store 5)))"
    by (simp add: a0 a5)
  have q: "mset [CtrlKey, AltKey] = mset [AltKey, CtrlKey]"
    by simp
  note c = C3_order_independent [OF p k q, of "''I''"]
  from c have t: "tableKey test_store 0 = tableKey test_store 5"
    and f: "fst (generateShorcutMap test_store [0, 5]) ''ctrlKey-shiftKey-o'' = Some 0"
    and e1: "getEventMapKey (eventOf [CtrlKey, AltKey] ''I'') = ''altKey-ctrlKey-i''"
    by (simp_all add: test_tableKeys toLowerCase_def toLowerCase_char_def)
  have "getEventMapKey (eventOf [CtrlKey, AltKey] ''I'')
      = getEventMapKey (eventOf [AltKey, CtrlKey] ''I'')"
    by (rule c [THEN conjunct2, THEN conjunct2, THEN conjunct2, THEN conjunct2])
  with e1 have e2: "getEventMapKey (eventOf [AltKey, CtrlKey] ''I'') = ''altKey-ctrlKey-i''"
    by simp
  from a0 a5 t f e1 e2 show ?thesis by (simp only: simp_thms)
qed

section \<open>Size and content of the table\<close>

text \<open>
  Counted by the names the builder writes: the table has as many entries as there are
  different property names among the listed definitions, and every entry holds a listed
  definition under the name the builder gives that definition.
\<close>

lemma table_entries_by_written_name:
  "card (dom (fst (generateShorcutMap h defs))) = length (remdups (map (tableKey h) defs)) \<and>
   (\<forall>k r. fst (generateShorcutMap h defs) k = Some r \<longrightarrow> r \<in> set defs \<and> tableKey h r = k)"
proof (intro conjI allI impI)
  have "dom (fst (generateShorcutMap h defs)) = set (map (tableKey h) defs)"
    by (simp add: generateShorcutMap_eq dom_map_of_keyed)
  then show "card (dom (fst (generateShorcutMap h defs))) = length (remdups (map (tableKey h) defs))"
    by (simp only: length_remdups_card_conv)
next
  fix k r
  assume "fst (generateShorcutMap h defs) k = Some r"
  then have "map_of (map (\<lambda>r. (tableKey h r, r)) defs) k = Some r"
    by (simp add: generateShorcutMap_eq)
  then show "r \<in> set defs" and "tableKey h r = k"
    using map_of_keyed [of "tableKey h" defs k r] by simp_all
qed

text \<open>
  C8, evaluated on the code. The list of the definitions at 4 and 6, Shift with \<^verbatim>\<open>O\<close> and
  Shift with \<^verbatim>\<open>o\<close>, has one canonical key, and the table built from it has two entries. The
  table built from the definition at 4 alone has the one entry \<^verbatim>\<open>shiftKey-O\<close>, which is not
  the canonical key of that definition, \<^verbatim>\<open>shiftKey-o\<close>.
\<close>

theorem C8_two_entries_for_one_canonical_key:
  "length (remdups (map (definitionCanonicalKey test_store) [4, 6])) = 1 \<and>
   card (dom (fst (generateShorcutMap test_store [4, 6]))) = 2 \<and>
   dom (fst (generateShorcutMap test_store [4])) = {''shiftKey-O''} \<and>
   definitionCanonicalKey test_store 4 = ''shiftKey-o''"
proof -
  have 1: "length (remdups (map (definitionCanonicalKey test_store) [4, 6])) = 1"
    by (simp add: test_canonicalKeys)
  have "length (remdups (map (tableKey test_store) [4, 6])) = 2"
    by (simp add: test_tableKeys)
  with table_entries_by_written_name [of test_store "[4, 6]", THEN conjunct1]
  have 2: "card (dom (fst (generateShorcutMap test_store [4, 6]))) = 2"
    by (simp only:)
  have 3: "dom (fst (generateShorcutMap test_store [4])) = {''shiftKey-O''}"
    by (simp add: generateShorcutMap_eq test_tableKeys)
  from 1 2 3 show ?thesis by (simp only: test_canonicalKeys simp_thms)
qed

section \<open>What the builder does to the caller's definitions\<close>

text \<open>
  C9 as stated fails: the builder calls \<^verbatim>\<open>sort\<close> on the caller's array. The first
  definition of the test suite lists \<^verbatim>\<open>shiftKey\<close> before \<^verbatim>\<open>ctrlKey\<close>; after the call its array
  reads \<^verbatim>\<open>ctrlKey\<close>, \<^verbatim>\<open>shiftKey\<close>, and the store is not the store the caller had.
\<close>

theorem C9_definitions_unchanged_counterexample:
  "arrays test_store 0 = [ShiftKey, CtrlKey] \<and>
   arrays (snd (generateShorcutMap test_store SHORTCUT_CONFIG_map)) 0 = [CtrlKey, ShiftKey] \<and>
   snd (generateShorcutMap test_store SHORTCUT_CONFIG_map) \<noteq> test_store"
proof -
  have a: "arrays test_store 0 = [ShiftKey, CtrlKey]"
    by (simp add: test_store_def test_arrays_def)
  have b: "arrays (snd (generateShorcutMap test_store SHORTCUT_CONFIG_map)) 0 = [CtrlKey, ShiftKey]"
    by (simp add: generateShorcutMap_eq sortedStore_def SHORTCUT_CONFIG_map_def
        test_store_def test_arrays_def test_objects_def)
  from a b have "snd (generateShorcutMap test_store SHORTCUT_CONFIG_map) \<noteq> test_store"
    by auto
  with a b show ?thesis by simp
qed

text \<open>
  C9 as amended. The builder writes to no definition object: action, key, description and
  the address of the modifiers array of every object are as before. The array of every
  listed definition is sorted in place, by modifier name; every other array is as before.
  Every value of the table is the address of one of the caller's definition objects.
\<close>

theorem C9_sorted_in_place:
  "objects (snd (generateShorcutMap h defs)) = objects h \<and>
   (\<forall>a. arrays (snd (generateShorcutMap h defs)) a =
      (if a \<in> set (map (\<lambda>r. modifiers (objects h r)) defs)
       then sort_key keyName (arrays h a) else arrays h a)) \<and>
   ran (fst (generateShorcutMap h defs)) \<subseteq> set defs"
proof (intro conjI allI)
  show "objects (snd (generateShorcutMap h defs)) = objects h"
    by (simp add: generateShorcutMap_eq sortedStore_def)
  show "arrays (snd (generateShorcutMap h defs)) a =
      (if a \<in> set (map (\<lambda>r. modifiers (objects h r)) defs)
       then sort_key keyName (arrays h a) else arrays h a)" for a
    by (simp add: generateShorcutMap_eq sortedStore_def)
  show "ran (fst (generateShorcutMap h defs)) \<subseteq> set defs"
    by (auto simp: generateShorcutMap_eq ran_def dest: map_of_keyed)
qed

theorem C9_sorted_in_place_witness:
  "objects (snd (generateShorcutMap test_store SHORTCUT_CONFIG_map)) = test_objects \<and>
   arrays (snd (generateShorcutMap test_store SHORTCUT_CONFIG_map)) 1 = [AltKey, CtrlKey] \<and>
   arrays (snd (generateShorcutMap test_store SHORTCUT_CONFIG_map)) 2 = [CtrlKey, ShiftKey] \<and>
   arrays (snd (generateShorcutMap test_store SHORTCUT_CONFIG_map)) 3 = [CtrlKey, CtrlKey] \<and>
   ran (fst (generateShorcutMap test_store SHORTCUT_CONFIG_map)) \<subseteq> {0, 1, 2}"
  using C9_sorted_in_place [of test_store SHORTCUT_CONFIG_map]
  by (simp add: SHORTCUT_CONFIG_map_def test_store_def test_arrays_def test_objects_def)

section \<open>The keystroke handler\<close>

lemma test_eventKeys:
  "getEventMapKey ctrl_shift_o = ''ctrlKey-shiftKey-o''"
  "getEventMapKey ctrl_alt_p = ''altKey-ctrlKey-p''"
  by (simp_all add: getEventMapKey_def ctrl_shift_o_def ctrl_alt_p_def MODIFIERS_KEYS_def
      toLowerCase_def toLowerCase_char_def)

lemma test_table:
  "fst (generateShorcutMap test_store SHORTCUT_CONFIG_map) ''ctrlKey-shiftKey-o'' = Some 0"
  "fst (generateShorcutMap test_store SHORTCUT_CONFIG_map) ''altKey-ctrlKey-p'' = None"
  by (simp_all add: generateShorcutMap_eq SHORTCUT_CONFIG_map_def test_tableKeys)

lemma test_sorted_store:
  "objects (snd (generateShorcutMap test_store SHORTCUT_CONFIG_map)) 0 = test_objects 0"
  "arrays (snd (generateShorcutMap test_store SHORTCUT_CONFIG_map)) 0 = [CtrlKey, ShiftKey]"
  by (simp_all add: generateShorcutMap_eq sortedStore_def SHORTCUT_CONFIG_map_def
      test_store_def test_arrays_def test_objects_def)

text \<open>
  C4. For a keystroke that matches the definition \<open>r\<close>: with \<^verbatim>\<open>silent\<close> true the handler
  calls the action and writes nothing, whatever the action does. With \<^verbatim>\<open>silent\<close> false or
  omitted and an action that completes, the handler calls the action and then writes one
  line, the tag, the modifiers of the definition as the array renders them (joined by
  commas), its key between double quotes and its description. The line is written only
  after the action has completed: when the action fails, the call is the only effect.
\<close>

theorem C4_silent_and_log_line:
  assumes "getShortcut (Some shortcutMap) event = Some r"
  shows "(silent = Some True \<longrightarrow>
            fst (handleKeyPress run h shortcutMap silent event) = [Invoke (action (objects h r))]) \<and>
         (silent \<noteq> Some True \<and> run (action (objects h r)) = None \<longrightarrow>
            handleKeyPress run h shortcutMap silent event =
              ([Invoke (action (objects h r)),
                Info (''#hooks #useShortcuts with ''
                      @ join '','' (map keyName (arrays h (modifiers (objects h r))))
                      @ '' executed for key '' @ [CHR 0x22] @ Shortcut.key (objects h r)
                      @ [CHR 0x22] @ '': '' @ description (objects h r))],
               Inr ())) \<and>
         (run (action (objects h r)) \<noteq> None \<longrightarrow>
            fst (handleKeyPress run h shortcutMap silent event) = [Invoke (action (objects h r))])"
  using assms
  by (cases "run (action (objects h r))") (simp_all add: handleKeyPress_def Let_def LOG_TAG_def)

theorem C4_silent_and_log_line_witness:
  "getShortcut (Some (fst (generateShorcutMap test_store SHORTCUT_CONFIG_map))) ctrl_shift_o = Some 0 \<and>
   fst (handleKeyPress completes (snd (generateShorcutMap test_store SHORTCUT_CONFIG_map))
          (fst (generateShorcutMap test_store SHORTCUT_CONFIG_map)) (Some True) ctrl_shift_o)
     = [Invoke 1] \<and>
   handleKeyPress completes (snd (generateShorcutMap test_store SHORTCUT_CONFIG_map))
          (fst (generateShorcutMap test_store SHORTCUT_CONFIG_map)) None ctrl_shift_o
     = ([Invoke 1,
         Info (''#hooks #useShortcuts with ctrlKey,shiftKey executed for key '' @ [CHR 0x22]
               @ ''o'' @ [CHR 0x22] @ '': Sample action 1'')],
        Inr ())"
proof -
  have m: "getShortcut (Some (fst (generateShorcutMap test_store SHORTCUT_CONFIG_map))) ctrl_shift_o
             = Some 0"
    by (simp add: getShortcut_def test_eventKeys test_table)
  have o: "objects (snd (generateShorcutMap test_store SHORTCUT_CONFIG_map)) 0 =
      \<lparr>action = 1, modifiers = 0, key = ''o'', description = ''Sample action 1''\<rparr>"
    by (simp add: test_sorted_store test_objects_def)
  have a: "arrays (snd (generateShorcutMap test_store SHORTCUT_CONFIG_map)) 0 = [CtrlKey, ShiftKey]"
    by (rule test_sorted_store)
  have s: "fst (handleKeyPress completes (snd (generateShorcutMap test_store SHORTCUT_CONFIG_map))
          (fst (generateShorcutMap test_store SHORTCUT_CONFIG_map)) (Some True) ctrl_shift_o)
     = [Invoke 1]"
    using C4_silent_and_log_line [OF m, of "Some True" completes
        "snd (generateShorcutMap test_store SHORTCUT_CONFIG_map)"]
    by (simp add: o)
  have l: "handleKeyPress completes (snd (generateShorcutMap test_store SHORTCUT_CONFIG_map))
          (fst (generateShorcutMap test_store SHORTCUT_CONFIG_map)) None ctrl_shift_o
     = ([Invoke 1,
         Info (''#hooks #useShortcuts with ctrlKey,shiftKey executed for key '' @ [CHR 0x22]
               @ ''o'' @ [CHR 0x22] @ '': Sample action 1'')],
        Inr ())"
    using C4_silent_and_log_line [OF m, of None completes
        "snd (generateShorcutMap test_store SHORTCUT_CONFIG_map)"]
    by (simp add: o a completes_def)
  from m s l show ?thesis by (simp only: simp_thms)
qed

text \<open>
  C6. When the table has no entry under the name of the event, the handler has no effect
  and its promise is fulfilled. The table built from the empty list is empty, so with it
  that holds for every event.
\<close>

theorem C6_no_entry_no_effect:
  "(shortcutMap (getEventMapKey event) = None \<longrightarrow>
      handleKeyPress run h shortcutMap silent event = ([], Inr ())) \<and>
   fst (generateShorcutMap h []) = Map.empty \<and>
   handleKeyPress run h' (fst (generateShorcutMap h [])) silent event = ([], Inr ())"
  by (simp add: handleKeyPress_def getShortcut_def Let_def generateShorcutMap_eq)

theorem C6_no_entry_no_effect_witness:
  "fst (generateShorcutMap test_store SHORTCUT_CONFIG_map) (getEventMapKey ctrl_alt_p) = None \<and>
   handleKeyPress completes test_store (fst (generateShorcutMap test_store SHORTCUT_CONFIG_map))
     None ctrl_alt_p = ([], Inr ()) \<and>
   handleKeyPress completes test_store (fst (generateShorcutMap test_store [])) None ctrl_shift_o
     = ([], Inr ())"
proof -
  have n: "fst (generateShorcutMap test_store SHORTCUT_CONFIG_map) (getEventMapKey ctrl_alt_p) = None"
    by (simp add: test_eventKeys test_table)
  from C6_no_entry_no_effect [of "fst (generateShorcutMap test_store SHORTCUT_CONFIG_map)"
      ctrl_alt_p completes test_store None test_store]
  have "handleKeyPress completes test_store (fst (generateShorcutMap test_store SHORTCUT_CONFIG_map))
     None ctrl_alt_p = ([], Inr ())"
    and "handleKeyPress completes test_store (fst (generateShorcutMap test_store [])) None ctrl_alt_p
     = ([], Inr ())"
    using n by blast+
  moreover from C6_no_entry_no_effect [of "fst (generateShorcutMap test_store SHORTCUT_CONFIG_map)"
      ctrl_shift_o completes test_store None test_store]
  have "handleKeyPress completes test_store (fst (generateShorcutMap test_store [])) None ctrl_shift_o
     = ([], Inr ())"
    by blast
  ultimately show ?thesis using n by (simp only: simp_thms)
qed

text \<open>
  C7. When the action of the matched definition fails with \<open>e\<close>, the handler has called
  the action once, has written no line, and its promise is rejected with \<open>e\<close>.
\<close>

theorem C7_failure_propagates:
  assumes "getShortcut (Some shortcutMap) event = Some r"
    and "run (action (objects h r)) = Some e"
  shows "handleKeyPress run h shortcutMap silent event = ([Invoke (action (objects h r))], Inl e)"
  using assms by (simp add: handleKeyPress_def Let_def)

theorem C7_failure_propagates_witness:
  "handleKeyPress rejects (snd (generateShorcutMap test_store SHORTCUT_CONFIG_map))
          (fst (generateShorcutMap test_store SHORTCUT_CONFIG_map)) None ctrl_shift_o
     = ([Invoke 1], Inl ''action failed'')"
proof -
  have m: "getShortcut (Some (fst (generateShorcutMap test_store SHORTCUT_CONFIG_map))) ctrl_shift_o
             = Some 0"
    by (simp add: getShortcut_def test_eventKeys test_table)
  have o: "objects (snd (generateShorcutMap test_store SHORTCUT_CONFIG_map)) 0 =
      \<lparr>action = 1, modifiers = 0, key = ''o'', description = ''Sample action 1''\<rparr>"
    by (simp add: test_sorted_store test_objects_def)
  have r: "rejects (action (objects (snd (generateShorcutMap test_store SHORTCUT_CONFIG_map)) 0))
             = Some ''action failed''"
    by (simp add: rejects_def)
  from C7_failure_propagates [where run = rejects and silent = None, OF m r]
  show ?thesis by (simp add: o)
qed

section \<open>Registration and removal of the handler\<close>

text \<open>
  C5. After the cleanup of the effect, the handler the hook registered is not among the
  listeners of the document; a document that did not hold it before is as it was before
  the hook ran, and a document that had no listener runs nothing on a later \<^verbatim>\<open>keydown\<close>:
  no action, no line. This is about events dispatched after the cleanup; a handler that
  is waiting for its action at that moment is not covered.
\<close>

theorem C5_no_handler_after_cleanup:
  assumes "useShortcuts f defs silent h doc = (l, h', doc')"
  shows "f \<notin> fid ` set (cleanup l doc') \<and>
         (f \<notin> fid ` set doc \<longrightarrow> cleanup l doc' = doc) \<and>
         (doc = [] \<longrightarrow> keydown run h'' (cleanup l doc') event = [])"
proof -
  from assms have l: "fid l = f" and d: "doc' = addEventListener doc l"
    by (auto simp: useShortcuts_def Let_def split: prod.splits)
  have 1: "f \<notin> fid ` set (cleanup l doc')"
    by (auto simp: cleanup_def removeEventListener_def l)
  have 2: "cleanup l doc' = doc" if "f \<notin> fid ` set doc"
  proof -
    from that have "filter (\<lambda>x. fid x \<noteq> f) doc = doc"
      by (induction doc) auto
    with that show ?thesis
      by (simp add: cleanup_def removeEventListener_def addEventListener_def d l)
  qed
  have 3: "keydown run h'' (cleanup l doc') event = []" if "doc = []"
    using that by (simp add: keydown_def cleanup_def removeEventListener_def addEventListener_def d)
  from 1 2 3 show ?thesis by blast
qed

theorem C5_no_handler_after_cleanup_witness:
  "cleanup (fst (useShortcuts 7 SHORTCUT_CONFIG_map None test_store []))
     (snd (snd (useShortcuts 7 SHORTCUT_CONFIG_map None test_store []))) = [] \<and>
   keydown completes (fst (snd (useShortcuts 7 SHORTCUT_CONFIG_map None test_store [])))
     (cleanup (fst (useShortcuts 7 SHORTCUT_CONFIG_map None test_store []))
        (snd (snd (useShortcuts 7 SHORTCUT_CONFIG_map None test_store [])))) ctrl_shift_o = []"
proof -
  have e: "useShortcuts 7 SHORTCUT_CONFIG_map None test_store [] =
      (fst (useShortcuts 7 SHORTCUT_CONFIG_map None test_store []),
       fst (snd (useShortcuts 7 SHORTCUT_CONFIG_map None test_store [])),
       snd (snd (useShortcuts 7 SHORTCUT_CONFIG_map None test_store [])))"
    by simp
  from C5_no_handler_after_cleanup [OF e, of completes
      "fst (snd (useShortcuts 7 SHORTCUT_CONFIG_map None test_store []))" ctrl_shift_o]
  show ?thesis by (simp add: keydown_def)
qed

section \<open>A modifier listed twice\<close>

lemma keyName_no_dash: "CHR ''-'' \<notin> set (keyName m)"
  by (cases m) simp_all

lemma keyName_has_K: "CHR ''K'' \<in> set (keyName m)"
  by (cases m) simp_all

lemma toLowerCase_char_not_K: "toLowerCase_char c \<noteq> CHR ''K''"
  by (simp add: toLowerCase_char_def)

lemma toLowerCase_no_K: "CHR ''K'' \<notin> set (toLowerCase s)"
proof
  assume "CHR ''K'' \<in> set (toLowerCase s)"
  then obtain c where "toLowerCase_char c = CHR ''K''"
    by (auto simp: toLowerCase_def)
  then show False by (simp add: toLowerCase_char_not_K)
qed

lemma dash_cancel:
  "CHR ''-'' \<notin> set x \<Longrightarrow> CHR ''-'' \<notin> set y \<Longrightarrow> x @ CHR ''-'' # s = y @ CHR ''-'' # t
     \<Longrightarrow> x = y \<and> s = t"
proof (induction x arbitrary: y)
  case Nil
  then show ?case by (cases y) auto
next
  case (Cons c x)
  then show ?case by (cases y) auto
qed

lemma join_dash:
  "ms \<noteq> [] \<Longrightarrow>
     join ''-'' (map keyName ms) @ ''-'' @ s = concat (map (\<lambda>m. keyName m @ ''-'') ms) @ s"
proof (induction ms)
  case Nil
  then show ?case by simp
next
  case (Cons m ms)
  then show ?case by (cases ms) simp_all
qed

lemma segments_split:
  "concat (map (\<lambda>m. keyName m @ ''-'') M) @ k = concat (map (\<lambda>m. keyName m @ ''-'') Es) @ L
     \<Longrightarrow> (\<exists>rest. Es = M @ rest) \<or> (\<exists>m rest. M = Es @ m # rest \<and> set (keyName m) \<subseteq> set L)"
proof (induction M arbitrary: Es)
  case Nil
  then show ?case by simp
next
  case (Cons m M)
  show ?case
  proof (cases Es)
    case Nil
    with Cons.prems have "L = keyName m @ ''-'' @ concat (map (\<lambda>m. keyName m @ ''-'') M) @ k"
      by simp
    then have "set (keyName m) \<subseteq> set L" by auto
    with Nil show ?thesis by auto
  next
    case (Cons e Es')
    with Cons.prems have
      "keyName m @ CHR ''-'' # (concat (map (\<lambda>m. keyName m @ ''-'') M) @ k)
        = keyName e @ CHR ''-'' # (concat (map (\<lambda>m. keyName m @ ''-'') Es') @ L)"
      by simp
    then have "keyName m = keyName e"
      and rest: "concat (map (\<lambda>m. keyName m @ ''-'') M) @ k
                 = concat (map (\<lambda>m. keyName m @ ''-'') Es') @ L"
      using dash_cancel [OF keyName_no_dash keyName_no_dash] by blast+
    then have "m = e" using keyName_inj by (auto dest: injD)
    with Cons.IH [OF rest] Cons show ?thesis by auto
  qed
qed

lemma repeated_modifier_key_unreachable:
  assumes "\<not> distinct ms"
  shows "getEventMapKey event \<noteq> join ''-'' (map keyName (sort_key keyName ms)) @ ''-'' @ k"
proof
  define M where "M = sort_key keyName ms"
  define Es where "Es = sort_key keyName (filter (eventFlag event) MODIFIERS_KEYS)"
  define L where "L = toLowerCase (KeyboardEvent.key event)"
  assume "getEventMapKey event = join ''-'' (map keyName (sort_key keyName ms)) @ ''-'' @ k"
  then have eq: "join ''-'' (map keyName Es) @ ''-'' @ L = join ''-'' (map keyName M) @ ''-'' @ k"
    by (simp add: getEventMapKey_def Let_def M_def Es_def L_def)
  from assms have nd: "\<not> distinct M" by (simp add: M_def)
  then have "M \<noteq> []" by auto
  have dE: "distinct Es" by (simp add: Es_def MODIFIERS_KEYS_def)
  have noK: "CHR ''K'' \<notin> set L" by (simp add: L_def toLowerCase_no_K)
  from eq join_dash [OF \<open>M \<noteq> []\<close>, of k] have eq1:
    "join ''-'' (map keyName Es) @ ''-'' @ L = concat (map (\<lambda>m. keyName m @ ''-'') M) @ k"
    by (simp only:)
  show False
  proof (cases "Es = []")
    case True
    from \<open>M \<noteq> []\<close> obtain m M' where "M = m # M'" by (cases M) auto
    with eq1 True have
      "[] @ CHR ''-'' # L = keyName m @ CHR ''-'' # (concat (map (\<lambda>m. keyName m @ ''-'') M') @ k)"
      by simp
    then have "[] = keyName m"
      using dash_cancel [of "[]" "keyName m"] keyName_no_dash by fastforce
    then show False by (cases m) simp_all
  next
    case False
    from eq1 join_dash [OF False, of L] have
      "concat (map (\<lambda>m. keyName m @ ''-'') M) @ k = concat (map (\<lambda>m. keyName m @ ''-'') Es) @ L"
      by (simp only:)
    from segments_split [OF this] show False
    proof
      assume "\<exists>rest. Es = M @ rest"
      with dE have "distinct M" by auto
      with nd show False by simp
    next
      assume "\<exists>m rest. M = Es @ m # rest \<and> set (keyName m) \<subseteq> set L"
      then obtain m where "set (keyName m) \<subseteq> set L" by blast
      with keyName_has_K have "CHR ''K'' \<in> set L" by blast
      with noK show False by simp
    qed
  qed
qed

text \<open>
  C10. A definition whose array lists a modifier more than once gets a property name that
  no keyboard event looks up: the event side names every held modifier once, and the
  lower-cased key of the event cannot supply a modifier name, since every modifier name
  has the capital letter \<^verbatim>\<open>K\<close>. So no keystroke reaches that definition, whatever table
  it is in.
\<close>

theorem C10_repeated_modifier_never_matches:
  assumes "\<not> distinct (arrays h (modifiers (objects h r)))"
  shows "getEventMapKey event \<noteq> tableKey h r \<and>
         getShortcut (Some (fst (generateShorcutMap h defs))) event \<noteq> Some r"
proof -
  have ne: "getEventMapKey event \<noteq> tableKey h r"
    unfolding tableKey_def by (rule repeated_modifier_key_unreachable [OF assms])
  have "getShortcut (Some (fst (generateShorcutMap h defs))) event \<noteq> Some r"
  proof
    assume "getShortcut (Some (fst (generateShorcutMap h defs))) event = Some r"
    then have "map_of (map (\<lambda>r. (tableKey h r, r)) defs) (getEventMapKey event) = Some r"
      by (simp add: getShortcut_def generateShorcutMap_eq)
    then have "tableKey h r = getEventMapKey event"
      by (rule map_of_keyed [THEN conjunct2])
    with ne show False by simp
  qed
  with ne show ?thesis by (simp only: simp_thms)
qed

theorem C10_repeated_modifier_never_matches_witness:
  "tableKey test_store 3 = ''ctrlKey-ctrlKey-o'' \<and>
   getEventMapKey ctrl_o \<noteq> tableKey test_store 3 \<and>
   getShortcut (Some (fst (generateShorcutMap test_store [3]))) ctrl_o \<noteq> Some 3"
proof -
  have "\<not> distinct (arrays test_store (modifiers (objects test_store 3)))"
    by (simp add: test_store_def test_arrays_def test_objects_def)
  from C10_repeated_modifier_never_matches [OF this, of ctrl_o "[3]"]
  show ?thesis by (simp add: test_tableKeys)
qed

end
